theory Spec2Isabelle
  imports Main
begin

section \<open>Values, errors and promises\<close>

text \<open>
  The script \<^verbatim>\<open>src/scripts/dragevent.js\<close> runs in a browser-style window. Its
  behaviour is embedded as functions on an explicit window state. Exceptions are values
  of \<open>js_error\<close>; a computation that may throw returns \<open>js_error + 'a\<close> with \<open>Inl\<close>
  the thrown error.
\<close>

datatype js_error = TypeError | ReferenceError | HostError string

text \<open>
  The values handed to \<^verbatim>\<open>invoke\<close> and the objects it builds. \<open>JNum n\<close> is the
  number \<open>n\<close>, meant for \<open>n \<le> 2 ^ 53\<close>, the range of the request counter; the text
  of a larger number (exponent notation from \<open>10 ^ 21\<close> on) is not modelled.
  \<open>JBigInt\<close> stands for a value that \<^verbatim>\<open>JSON.stringify\<close> refuses with a TypeError.
\<close>

datatype json =
    JUndefined
  | JNull
  | JBool bool
  | JNum nat
  | JStr string
  | JBigInt int
  | JObj "(string \<times> json) list"

text \<open>
  A promise is pending, fulfilled or rejected. An executor may call \<^verbatim>\<open>resolve\<close> or
  \<^verbatim>\<open>reject\<close>; the calls it makes are returned as a list of \<open>settle\<close> values.
\<close>

datatype promise = Pending | Fulfilled json | Rejected js_error

datatype settle = Resolve json | Reject js_error

section \<open>JSON.stringify with an indentation of two spaces\<close>

text \<open>The decimal text of an integer-valued number below \<open>10 ^ 21\<close>.\<close>

fun decimal :: "nat \<Rightarrow> string" where
  "decimal n =
     (if n < 10 then [''0123456789'' ! n]
      else decimal (n div 10) @ [''0123456789'' ! (n mod 10)])"

declare decimal.simps [simp del]

definition hex_digit :: "nat \<Rightarrow> char" where
  "hex_digit d = ''0123456789abcdef'' ! d"

text \<open>QuoteJSONString of ECMAScript, on strings whose code units are below 256.\<close>

definition quote_char :: "char \<Rightarrow> string" where
  "quote_char c =
     (if c = CHR 0x08 then [CHR 0x5C, CHR ''b'']
      else if c = CHR 0x09 then [CHR 0x5C, CHR ''t'']
      else if c = CHR 0x0A then [CHR 0x5C, CHR ''n'']
      else if c = CHR 0x0C then [CHR 0x5C, CHR ''f'']
      else if c = CHR 0x0D then [CHR 0x5C, CHR ''r'']
      else if c = CHR 0x22 then [CHR 0x5C, CHR 0x22]
      else if c = CHR 0x5C then [CHR 0x5C, CHR 0x5C]
      else if (of_char c :: nat) < 32
        then [CHR 0x5C, CHR ''u'', CHR ''0'', CHR ''0'',
              hex_digit (of_char c div 16), hex_digit (of_char c mod 16)]
      else [c])"

definition QuoteJSONString :: "string \<Rightarrow> string" where
  "QuoteJSONString s = [CHR 0x22] @ concat (map quote_char s) @ [CHR 0x22]"

fun join :: "string \<Rightarrow> string list \<Rightarrow> string" where
  "join sep [] = []"
| "join sep [x] = x"
| "join sep (x # y # ys) = x @ sep @ join sep (y # ys)"

text \<open>
  The text of an object from the texts of its members: \<open>indent\<close> is the indentation of
  the object itself (the step back), \<open>gap\<close> the unit of indentation.
\<close>

definition braces :: "string \<Rightarrow> string \<Rightarrow> string list \<Rightarrow> string" where
  "braces gap indent partial =
     (if partial = [] then ''{}''
      else if gap = [] then ''{'' @ join '','' partial @ ''}''
      else ''{'' @ [CHR 0x0A] @ (indent @ gap)
           @ join ('','' @ [CHR 0x0A] @ (indent @ gap)) partial
           @ [CHR 0x0A] @ indent @ ''}'')"

text \<open>
  SerializeJSONProperty: \<open>Inr None\<close> is the result \<^verbatim>\<open>undefined\<close>, for which the
  enclosing object leaves the member out. \<open>SerializeJSONMembers\<close> is the loop over the
  keys of an object, at the members' indentation.
\<close>

fun SerializeJSONProperty :: "string \<Rightarrow> string \<Rightarrow> json \<Rightarrow> js_error + string option"
and SerializeJSONMembers :: "string \<Rightarrow> string \<Rightarrow> (string \<times> json) list \<Rightarrow> js_error + string list"
where
  "SerializeJSONProperty gap indent JUndefined = Inr None"
| "SerializeJSONProperty gap indent JNull = Inr (Some ''null'')"
| "SerializeJSONProperty gap indent (JBool b) = Inr (Some (if b then ''true'' else ''false''))"
| "SerializeJSONProperty gap indent (JNum n) = Inr (Some (decimal n))"
| "SerializeJSONProperty gap indent (JStr s) = Inr (Some (QuoteJSONString s))"
| "SerializeJSONProperty gap indent (JBigInt i) = Inl TypeError"
| "SerializeJSONProperty gap indent (JObj kvs) =
     (case SerializeJSONMembers gap (indent @ gap) kvs of
        Inl e \<Rightarrow> Inl e
      | Inr partial \<Rightarrow> Inr (Some (braces gap indent partial)))"
| "SerializeJSONMembers gap indent [] = Inr []"
| "SerializeJSONMembers gap indent ((k, v) # kvs) =
     (case SerializeJSONProperty gap indent v of
        Inl e \<Rightarrow> Inl e
      | Inr None \<Rightarrow> SerializeJSONMembers gap indent kvs
      | Inr (Some strP) \<Rightarrow>
          (case SerializeJSONMembers gap indent kvs of
             Inl e \<Rightarrow> Inl e
           | Inr rest \<Rightarrow>
               Inr ((QuoteJSONString k @ '':'' @ (if gap = [] then [] else '' '') @ strP)
                    # rest)))"

text \<open>
  \<^verbatim>\<open>JSON.stringify(obj, null, space)\<close> on an object literal with the given members:
  always a string, or a thrown error.
\<close>

definition JSON_stringify :: "(string \<times> json) list \<Rightarrow> nat \<Rightarrow> js_error + string" where
  "JSON_stringify members space =
     (let gap = replicate (min space 10) CHR '' '' in
      case SerializeJSONMembers gap gap members of
        Inl e \<Rightarrow> Inl e
      | Inr partial \<Rightarrow> Inr (braces gap [] partial))"

section \<open>The window state\<close>

text \<open>The three variables that one call of \<^verbatim>\<open>dragging\<close> declares.\<close>

record drag_session =
  isDragging :: bool
  startX :: int
  startY :: int

text \<open>
  The listener functions the script creates. A listener made by \<^verbatim>\<open>dragging\<close>
  carries the address of the session variables it closes over.
\<close>

datatype listener =
    DragMouseDown nat
  | DragMouseMove nat
  | DragMouseUp nat
  | FallbackMouseDown

text \<open>
  The window: the two global slots for the bridge function (each holds the address of the
  \<^verbatim>\<open>nextId\<close> variable the function closes over, or nothing), the store of these
  variables, the host transport \<^verbatim>\<open>window.ipc\<close> (absent, or the behaviour of its
  \<^verbatim>\<open>postMessage\<close>: the error it throws, if any), the messages handed to the
  transport, the history of the runs of the bridge function (identifier, event name,
  value), the store of drag sessions, whether the document has an element matching
  \<^verbatim>\<open>[data-taoket-drag-region]\<close>, and the listeners registered on that element, on
  the document and on the window, in order of registration.
\<close>

record window =
  api_invoke :: "nat option"
  invoke_global :: "nat option"
  nextId :: "nat \<Rightarrow> nat"
  allocated :: nat
  ipc :: "(string \<Rightarrow> js_error option) option"
  posted :: "string list"
  requests :: "(nat \<times> string \<times> json) list"
  sessions :: "nat \<Rightarrow> drag_session"
  session_count :: nat
  region :: bool
  region_mousedown :: "listener list"
  document_mousedown :: "listener list"
  window_mousemove :: "listener list"
  window_mouseup :: "listener list"

definition fresh_window :: "(string \<Rightarrow> js_error option) option \<Rightarrow> bool \<Rightarrow> window" where
  "fresh_window transport has_region =
     \<lparr>api_invoke = None, invoke_global = None, nextId = (\<lambda>_. 0), allocated = 0,
      ipc = transport, posted = [], requests = [],
      sessions = (\<lambda>_. \<lparr>isDragging = False, startX = 0, startY = 0\<rparr>), session_count = 0,
      region = has_region, region_mousedown = [], document_mousedown = [],
      window_mousemove = [], window_mouseup = []\<rparr>"

section \<open>The invocation bridge\<close>

text \<open>
  The increment \<^verbatim>\<open>nextId++\<close>. A number is an IEEE double. On the integers \<open>0 .. 2 ^ 53\<close> the increment
  \<^verbatim>\<open>n++\<close> is exact below \<open>2 ^ 53\<close>; at \<open>2 ^ 53\<close> the sum \<open>2 ^ 53 + 1\<close> is not
  representable and rounds (ties to even) back to \<open>2 ^ 53\<close>. The counter starts at 1, so
  no other value occurs.
\<close>

definition number_succ :: "nat \<Rightarrow> nat" where
  "number_succ n = (if n < 2 ^ 53 then n + 1 else n)"

definition envelope :: "nat \<Rightarrow> string \<Rightarrow> json \<Rightarrow> (string \<times> json) list" where
  "envelope n event v =
     [(''payload'', JObj [(''id'', JNum n),
                          (''event'', JObj [(''type'', JStr event), (''value'', v)])])]"

text \<open>
  The executor passed to the promise constructor, for the bridge function whose counter
  lives at address \<open>a\<close>. It returns the calls it made to \<^verbatim>\<open>resolve\<close> and
  \<^verbatim>\<open>reject\<close> (none), how it completed, and the window.
\<close>

definition executor ::
  "nat \<Rightarrow> string \<Rightarrow> json \<Rightarrow> window \<Rightarrow> settle list \<times> (js_error + unit) \<times> window" where
  "executor a event v w =
     (let id' = nextId w a;
          w1 = w\<lparr>nextId := (nextId w)(a := number_succ id'),
                 requests := requests w @ [(id', event, v)]\<rparr>
      in case JSON_stringify (envelope id' event v) 2 of
           Inl e \<Rightarrow> ([], Inl e, w1)
         | Inr message \<Rightarrow>
             (case ipc w1 of
                None \<Rightarrow> ([], Inl TypeError, w1)
              | Some postMessage \<Rightarrow>
                  (case postMessage message of
                     Some e \<Rightarrow> ([], Inl e, w1\<lparr>posted := posted w1 @ [message]\<rparr>)
                   | None \<Rightarrow> ([], Inr (), w1\<lparr>posted := posted w1 @ [message]\<rparr>))))"

text \<open>
  \<^verbatim>\<open>new Promise(executor)\<close>: the executor runs at once; the first call to
  \<^verbatim>\<open>resolve\<close> or \<^verbatim>\<open>reject\<close> settles the promise; an executor that throws before
  settling rejects the promise with the error thrown; the constructor itself returns
  normally.
\<close>

definition new_Promise ::
  "(window \<Rightarrow> settle list \<times> (js_error + unit) \<times> window) \<Rightarrow> window \<Rightarrow> promise \<times> window" where
  "new_Promise ex w =
     (case ex w of
        (settles, completion, w') \<Rightarrow>
          ((case settles of
              Resolve x # _ \<Rightarrow> Fulfilled x
            | Reject e # _ \<Rightarrow> Rejected e
            | [] \<Rightarrow> (case completion of Inl e \<Rightarrow> Rejected e | Inr _ \<Rightarrow> Pending)),
           w'))"

definition invoke :: "nat \<Rightarrow> string \<Rightarrow> json \<Rightarrow> window \<Rightarrow> promise \<times> window" where
  "invoke a event v w = new_Promise (executor a event v) w"

text \<open>
  The third top-level function of the file: it returns at once when
  \<^verbatim>\<open>window.__API__INVOKE\<close> is set, and otherwise declares \<^verbatim>\<open>nextId = 1\<close> and
  stores the one new function in both global slots.
\<close>

definition install :: "window \<Rightarrow> window" where
  "install w =
     (if api_invoke w \<noteq> None then w
      else let a = allocated w
           in w\<lparr>allocated := a + 1, nextId := (nextId w)(a := 1),
                api_invoke := Some a, invoke_global := Some a\<rparr>)"

text \<open>A call \<^verbatim>\<open>invoke(event, value)\<close> through the global name.\<close>

definition call_invoke :: "string \<Rightarrow> json \<Rightarrow> window \<Rightarrow> (js_error + promise) \<times> window" where
  "call_invoke event v w =
     (case invoke_global w of
        None \<Rightarrow> (Inl ReferenceError, w)
      | Some a \<Rightarrow> (case invoke a event v w of (p, w') \<Rightarrow> (Inr p, w')))"

fun invoke_all :: "(string \<times> json) list \<Rightarrow> window \<Rightarrow> window" where
  "invoke_all [] w = w"
| "invoke_all ((event, v) # cs) w = invoke_all cs (snd (call_invoke event v w))"

section \<open>Mouse events and the drag initiator\<close>

text \<open>
  What the listeners read of a mouse event, and the flags they set on it.
  \<open>target_attr\<close> is the result of
  \<^verbatim>\<open>e.target.getAttribute("data-taocket-drag-region")\<close>, the target being an element
  (\<open>None\<close> is \<^verbatim>\<open>null\<close>: the attribute is missing); \<open>in_region\<close> says whether
  the event's path passes through the element found by \<^verbatim>\<open>dragging\<close>.
\<close>

record mouse_event =
  button :: int
  detail :: int
  clientX :: int
  clientY :: int
  target_attr :: "string option"
  in_region :: bool
  defaultPrevented :: bool
  propagation_stopped :: bool
  immediate_stopped :: bool

definition preventDefault :: "mouse_event \<Rightarrow> mouse_event" where
  "preventDefault e = e\<lparr>defaultPrevented := True\<rparr>"

definition stopPropagation :: "mouse_event \<Rightarrow> mouse_event" where
  "stopPropagation e = e\<lparr>propagation_stopped := True\<rparr>"

definition stopImmediatePropagation :: "mouse_event \<Rightarrow> mouse_event" where
  "stopImmediatePropagation e = e\<lparr>propagation_stopped := True, immediate_stopped := True\<rparr>"

text \<open>A listener returns the error it threw, if any, the event and the window.\<close>

definition drag_mousedown ::
  "nat \<Rightarrow> mouse_event \<Rightarrow> window \<Rightarrow> js_error option \<times> mouse_event \<times> window" where
  "drag_mousedown s e w =
     (if button e \<noteq> 0 then (None, e, w)
      else let w1 = w\<lparr>sessions := (sessions w)
                        (s := \<lparr>isDragging = True, startX = clientX e, startY = clientY e\<rparr>)\<rparr>
           in case call_invoke ''Move'' (JBool True) w1 of
                (Inl err, w2) \<Rightarrow> (Some err, e, w2)
              | (Inr p, w2) \<Rightarrow> (None, stopPropagation (preventDefault e), w2))"

definition drag_mousemove ::
  "nat \<Rightarrow> mouse_event \<Rightarrow> window \<Rightarrow> js_error option \<times> mouse_event \<times> window" where
  "drag_mousemove s e w =
     (if \<not> isDragging (sessions w s) then (None, e, w)
      else let deltaX = clientX e - startX (sessions w s);
               deltaY = clientY e - startY (sessions w s)
           in (None, e, w))"

definition drag_mouseup ::
  "nat \<Rightarrow> mouse_event \<Rightarrow> window \<Rightarrow> js_error option \<times> mouse_event \<times> window" where
  "drag_mouseup s e w =
     (if \<not> isDragging (sessions w s) then (None, e, w)
      else let w1 = w\<lparr>sessions := (sessions w)(s := (sessions w s)\<lparr>isDragging := False\<rparr>)\<rparr>
           in case call_invoke ''Move'' (JBool False) w1 of
                (Inl err, w2) \<Rightarrow> (Some err, e, w2)
              | (Inr p, w2) \<Rightarrow> (None, e, w2))"

definition fallback_mousedown ::
  "mouse_event \<Rightarrow> window \<Rightarrow> js_error option \<times> mouse_event \<times> window" where
  "fallback_mousedown e w =
     (let attr = target_attr e
      in if attr \<noteq> None \<and> (detail e = 1 \<or> detail e = 2)
         then let e1 = stopImmediatePropagation (preventDefault e)
              in case call_invoke ''Move'' (JBool True) w of
                   (Inl err, w2) \<Rightarrow> (Some err, e1, w2)
                 | (Inr p, w2) \<Rightarrow> (None, e1, w2)
         else (None, e, w))"

fun run_listener ::
  "listener \<Rightarrow> mouse_event \<Rightarrow> window \<Rightarrow> js_error option \<times> mouse_event \<times> window" where
  "run_listener (DragMouseDown s) e w = drag_mousedown s e w"
| "run_listener (DragMouseMove s) e w = drag_mousemove s e w"
| "run_listener (DragMouseUp s) e w = drag_mouseup s e w"
| "run_listener FallbackMouseDown e w = fallback_mousedown e w"

text \<open>
  The listeners of one target run in order of registration until one of them stops
  immediate propagation. An error thrown by a listener is reported and does not keep the
  next listener from running.
\<close>

fun run_listeners :: "listener list \<Rightarrow> mouse_event \<Rightarrow> window \<Rightarrow> mouse_event \<times> window" where
  "run_listeners [] e w = (e, w)"
| "run_listeners (l # ls) e w =
     (if immediate_stopped e then (e, w)
      else case run_listener l e w of (r, e', w') \<Rightarrow> run_listeners ls e' w')"

text \<open>
  A mousedown bubbles from its target through the region element, when that is on its
  path, to the document, unless a listener stops the propagation on the way. Mousemove and
  mouseup reach the listeners on the window.
\<close>

definition dispatch_mousedown :: "mouse_event \<Rightarrow> window \<Rightarrow> mouse_event \<times> window" where
  "dispatch_mousedown e w =
     (case (if in_region e then run_listeners (region_mousedown w) e w else (e, w)) of
        (e1, w1) \<Rightarrow>
          if propagation_stopped e1 then (e1, w1)
          else run_listeners (document_mousedown w1) e1 w1)"

definition dispatch_mousemove :: "mouse_event \<Rightarrow> window \<Rightarrow> mouse_event \<times> window" where
  "dispatch_mousemove e w = run_listeners (window_mousemove w) e w"

definition dispatch_mouseup :: "mouse_event \<Rightarrow> window \<Rightarrow> mouse_event \<times> window" where
  "dispatch_mouseup e w = run_listeners (window_mouseup w) e w"

text \<open>
  \<^verbatim>\<open>dragging()\<close>: when the region element exists, declare a new session and register
  the three listeners that close over it.
\<close>

definition dragging :: "window \<Rightarrow> window" where
  "dragging w =
     (if region w
      then let s = session_count w
           in w\<lparr>session_count := s + 1,
                sessions := (sessions w)(s := \<lparr>isDragging = False, startX = 0, startY = 0\<rparr>),
                region_mousedown := region_mousedown w @ [DragMouseDown s],
                window_mousemove := window_mousemove w @ [DragMouseMove s],
                window_mouseup := window_mouseup w @ [DragMouseUp s]\<rparr>
      else w)"

text \<open>
  Each of the first two top-level functions registers one fallback listener on the
  document (their variables \<^verbatim>\<open>initialX\<close> and \<^verbatim>\<open>initialY\<close> are never read).
\<close>

definition fallback :: "window \<Rightarrow> window" where
  "fallback w = w\<lparr>document_mousedown := document_mousedown w @ [FallbackMouseDown]\<rparr>"

text \<open>Running the file: the two fallback registrations, then the bridge.\<close>

definition load :: "window \<Rightarrow> window" where
  "load w = install (fallback (fallback w))"

text \<open>
  The calls of the bridge function made between two windows of a run: event name and
  value of the requests added.
\<close>

definition emitted :: "window \<Rightarrow> window \<Rightarrow> (string \<times> json) list" where
  "emitted w w' = map snd (drop (length (requests w)) (requests w'))"

text \<open>
  A run of press and release pairs, observing after each event the flag of session \<open>s\<close>
  and the calls the event made.
\<close>

fun gestures ::
  "nat \<Rightarrow> (mouse_event \<times> mouse_event) list \<Rightarrow> window
   \<Rightarrow> (bool \<times> (string \<times> json) list) list \<times> window" where
  "gestures s [] w = ([], w)"
| "gestures s ((d, u) # ps) w =
     (let w1 = snd (dispatch_mousedown d w);
          w2 = snd (dispatch_mouseup u w1)
      in case gestures s ps w2 of
           (obs, w3) \<Rightarrow>
             ((isDragging (sessions w1 s), emitted w w1)
              # (isDragging (sessions w2 s), emitted w1 w2) # obs, w3))"

definition untouched :: "mouse_event \<Rightarrow> bool" where
  "untouched e \<longleftrightarrow> \<not> defaultPrevented e \<and> \<not> propagation_stopped e \<and> \<not> immediate_stopped e"

definition mouse :: "int \<Rightarrow> int \<Rightarrow> int \<Rightarrow> int \<Rightarrow> string option \<Rightarrow> bool \<Rightarrow> mouse_event" where
  "mouse b d x y attr r =
     \<lparr>button = b, detail = d, clientX = x, clientY = y, target_attr = attr, in_region = r,
      defaultPrevented = False, propagation_stopped = False, immediate_stopped = False\<rparr>"

text \<open>
  The wire format of the first request \<^verbatim>\<open>invoke("Move", true)\<close>, pretty-printed with
  an indentation of two spaces; the serializer above is compared with it.
\<close>

definition move_true_text :: string where
  \<open>move_true_text =
     ''{\<newline>  "payload": {\<newline>    "id": 1,\<newline>    "event": {\<newline>      "type": "Move",\<newline>      "value": true\<newline>    }\<newline>  }\<newline>}''\<close>

text \<open>The same for a second request \<^verbatim>\<open>invoke("Move", false)\<close>, with identifier 2.\<close>

definition move_false_text :: string where
  \<open>move_false_text =
     ''{\<newline>  "payload": {\<newline>    "id": 2,\<newline>    "event": {\<newline>      "type": "Move",\<newline>      "value": false\<newline>    }\<newline>  }\<newline>}''\<close>

section \<open>Facts about the bridge\<close>

lemma executor_settles: "fst (executor a ev v w) = []"
  by (simp add: executor_def Let_def split: sum.splits option.splits)

lemma invoke_requests:
  "requests (snd (invoke a ev v w)) = requests w @ [(nextId w a, ev, v)]"
  by (simp add: invoke_def new_Promise_def executor_def Let_def
      split: sum.splits option.splits prod.splits)

lemma invoke_nextId:
  "nextId (snd (invoke a ev v w)) = (nextId w)(a := number_succ (nextId w a))"
  by (simp add: invoke_def new_Promise_def executor_def Let_def
      split: sum.splits option.splits prod.splits)

lemma invoke_globals:
  "invoke_global (snd (invoke a ev v w)) = invoke_global w"
  "api_invoke (snd (invoke a ev v w)) = api_invoke w"
  "allocated (snd (invoke a ev v w)) = allocated w"
  "ipc (snd (invoke a ev v w)) = ipc w"
  by (simp_all add: invoke_def new_Promise_def executor_def Let_def
      split: sum.splits option.splits prod.splits)

lemma invoke_dom:
  "sessions (snd (invoke a ev v w)) = sessions w"
  "session_count (snd (invoke a ev v w)) = session_count w"
  "region (snd (invoke a ev v w)) = region w"
  "region_mousedown (snd (invoke a ev v w)) = region_mousedown w"
  "document_mousedown (snd (invoke a ev v w)) = document_mousedown w"
  "window_mousemove (snd (invoke a ev v w)) = window_mousemove w"
  "window_mouseup (snd (invoke a ev v w)) = window_mouseup w"
  by (simp_all add: invoke_def new_Promise_def executor_def Let_def
      split: sum.splits option.splits prod.splits)

lemma call_invoke_snd:
  "invoke_global w = Some a \<Longrightarrow> snd (call_invoke ev v w) = snd (invoke a ev v w)"
  by (simp add: call_invoke_def split: prod.splits)

lemma call_invoke_fst:
  "invoke_global w = Some a \<Longrightarrow> fst (call_invoke ev v w) = Inr (fst (invoke a ev v w))"
  by (simp add: call_invoke_def split: prod.splits)

lemma load_fresh:
  "invoke_global (load (fresh_window t r)) = Some 0"
  "api_invoke (load (fresh_window t r)) = Some 0"
  "nextId (load (fresh_window t r)) 0 = 1"
  "requests (load (fresh_window t r)) = []"
  "posted (load (fresh_window t r)) = []"
  "ipc (load (fresh_window t r)) = t"
  "region (load (fresh_window t r)) = r"
  "document_mousedown (load (fresh_window t r)) = [FallbackMouseDown, FallbackMouseDown]"
  "region_mousedown (load (fresh_window t r)) = []"
  "window_mouseup (load (fresh_window t r)) = []"
  "window_mousemove (load (fresh_window t r)) = []"
  "session_count (load (fresh_window t r)) = 0"
  by (simp_all add: load_def install_def fallback_def fresh_window_def)

subsection \<open>The sequence of request identifiers\<close>

lemma number_succ_min: "c \<le> 2 ^ 53 \<Longrightarrow> number_succ c = min (c + 1) (2 ^ 53)"
  by (simp add: number_succ_def min_def)

lemma upt_shift:
  fixes c K :: nat
  assumes "c \<le> K"
  shows "map (\<lambda>i. min (c + i) K) [0..<Suc n] =
         c # map (\<lambda>i. min (min (c + 1) K + i) K) [0..<n]"
proof -
  have "[0..<Suc n] = 0 # map Suc [0..<n]"
    by (simp only: map_Suc_upt upt_conv_Cons [of 0 "Suc n"])
  moreover have "min (c + Suc i) K = min (min (c + 1) K + i) K" for i
    by (simp add: min_def)
  ultimately show ?thesis
    using assms by (simp add: comp_def)
qed

text \<open>
  From a counter value \<open>c\<close>, the calls of a run take the identifiers \<open>c\<close>, \<open>c + 1\<close>,
  ... and stay at \<open>2 ^ 53\<close> once the counter has reached it.
\<close>

lemma invoke_all_ids:
  fixes K :: nat
  assumes "K = 2 ^ 53"
  shows "invoke_global w = Some a \<Longrightarrow> nextId w a = c \<Longrightarrow> c \<le> K \<Longrightarrow>
   map fst (requests (invoke_all cs w)) =
     map fst (requests w) @ map (\<lambda>i. min (c + i) K) [0..<length cs]"
proof (induction cs arbitrary: w c)
  case Nil
  then show ?case by simp
next
  case (Cons x cs)
  obtain ev v where x: "x = (ev, v)" by (cases x)
  let ?w = "snd (call_invoke ev v w)"
  have w': "?w = snd (invoke a ev v w)" using Cons.prems(1) by (rule call_invoke_snd)
  have g: "invoke_global ?w = Some a" using Cons.prems(1) by (simp add: w' invoke_globals)
  have n: "nextId ?w a = min (c + 1) K"
    using Cons.prems(2,3) by (simp add: w' invoke_nextId number_succ_min assms)
  have r: "map fst (requests ?w) = map fst (requests w) @ [c]"
    using Cons.prems(2) by (simp add: w' invoke_requests)
  have ih: "map fst (requests (invoke_all cs ?w)) =
     map fst (requests ?w) @ map (\<lambda>i. min (min (c + 1) K + i) K) [0..<length cs]"
    by (rule Cons.IH [OF g n]) simp
  have len: "length ((ev, v) # cs) = Suc (length cs)" by simp
  show ?case
    unfolding x invoke_all.simps ih r len upt_shift [OF Cons.prems(3)] by simp
qed

lemma upt_min_Suc:
  fixes K :: nat
  assumes "n \<le> K"
  shows "map (\<lambda>i. min (1 + i) K) [0..<n] = [1..<Suc n]"
proof -
  have "map (\<lambda>i. min (1 + i) K) [0..<n] = map Suc [0..<n]"
    using assms by (intro map_cong) (auto simp: min_def)
  then show ?thesis by (simp add: map_Suc_upt)
qed

text \<open>
  Claim C1, as amended. After the file has run in a fresh window, any \<open>N \<le> 2 ^ 53\<close>
  calls of \<^verbatim>\<open>invoke\<close>, with any event names and values and any transport, take
  the request identifiers \<open>1, 2, ..., N\<close>: distinct, strictly increasing, starting at 1
  and growing by one per call.
\<close>

theorem request_ids_sequential:
  assumes "length cs \<le> 2 ^ 53"
  shows "map fst (requests (invoke_all cs (load (fresh_window t r)))) = [1..<Suc (length cs)]
       \<and> distinct (map fst (requests (invoke_all cs (load (fresh_window t r)))))
       \<and> sorted_wrt (<) (map fst (requests (invoke_all cs (load (fresh_window t r)))))"
proof -
  have "map fst (requests (invoke_all cs (load (fresh_window t r)))) =
        map fst (requests (load (fresh_window t r)))
        @ map (\<lambda>i. min (1 + i) (2 ^ 53)) [0..<length cs]"
    by (rule invoke_all_ids [OF refl load_fresh(1) load_fresh(3)]) simp
  then have eq:
    "map fst (requests (invoke_all cs (load (fresh_window t r)))) = [1..<Suc (length cs)]"
    using assms by (simp only: load_fresh upt_min_Suc list.map append_Nil)
  show ?thesis
    unfolding eq by (simp add: sorted_wrt_upt del: upt_Suc)
qed

theorem request_ids_sequential_witness:
  "length [(''Move'', JBool True), (''Resize'', JNull), (''Move'', JBool False)] \<le> (2::nat) ^ 53
   \<and> map fst (requests (invoke_all
        [(''Move'', JBool True), (''Resize'', JNull), (''Move'', JBool False)]
        (load (fresh_window None False)))) = [1, 2, 3]"
  using request_ids_sequential
    [of "[(''Move'', JBool True), (''Resize'', JNull), (''Move'', JBool False)]" None False]
  by (simp add: upt_conv_Cons)

text \<open>
  Claim C1 as stated, for every \<open>N\<close>, fails: the call number \<open>2 ^ 53\<close> takes the
  identifier \<open>2 ^ 53\<close> and leaves the counter there, so the call number \<open>2 ^ 53 + 1\<close>
  takes the same identifier again.
\<close>

theorem request_ids_repeat_counterexample:
  "\<not> distinct (map fst (requests (invoke_all (replicate (2 ^ 53 + 1) (''Move'', JBool True))
        (load (fresh_window None False)))))"
proof -
  let ?N = "2 ^ 53 + 1 :: nat"
  let ?f = "\<lambda>i::nat. min (1 + i) (2 ^ 53 :: nat)"
  have ids: "map fst (requests (invoke_all (replicate ?N (''Move'', JBool True))
                 (load (fresh_window None False)))) =
        map fst (requests (load (fresh_window None False)))
        @ map ?f [0..<length (replicate ?N (''Move'', JBool True))]"
    by (rule invoke_all_ids [OF refl load_fresh(1) load_fresh(3)]) simp
  have "\<not> inj_on ?f {0..<?N}"
  proof
    assume inj: "inj_on ?f {0..<?N}"
    have eq: "?f (2 ^ 53 - 1) = ?f (2 ^ 53)" by simp
    have mem: "(2 ^ 53 - 1 :: nat) \<in> {0..<?N}" "(2 ^ 53 :: nat) \<in> {0..<?N}" by simp_all
    have "(2 ^ 53 - 1 :: nat) = 2 ^ 53" by (rule inj_onD [OF inj eq mem])
    then show False by simp
  qed
  then have "\<not> distinct (map ?f [0..<?N])"
    by (simp add: distinct_map del: upt_Suc)
  then show ?thesis
    unfolding ids by (simp add: load_fresh del: upt_Suc)
qed

subsection \<open>The message of the first call\<close>

lemma stringify_move_true:
  "JSON_stringify (envelope 1 ''Move'' (JBool True)) 2 = Inr move_true_text"
  by code_simp

lemma move_true_compact:
  \<open>filter (\<lambda>c. c \<noteq> CHR '' '' \<and> c \<noteq> CHR 0x0A) move_true_text =
     ''{"payload":{"id":1,"event":{"type":"Move","value":true}}}''\<close>
  by code_simp

lemma invoke_posted:
  "JSON_stringify (envelope (nextId w a) ev v) 2 = Inr m \<Longrightarrow> ipc w = Some post \<Longrightarrow>
   posted (snd (invoke a ev v w)) = posted w @ [m]"
  by (simp add: invoke_def new_Promise_def executor_def Let_def split: option.splits)

lemma stringify_move_false:
  "JSON_stringify (envelope 2 ''Move'' (JBool False)) 2 = Inr move_false_text"
  by code_simp

lemma stringify_bool:
  "\<exists>m. JSON_stringify (envelope n ev (JBool b)) 2 = Inr m"
  by (simp add: JSON_stringify_def envelope_def Let_def)

lemma invoke_not_posted:
  "ipc w = None \<or> JSON_stringify (envelope (nextId w a) ev v) 2 = Inl e \<Longrightarrow>
   posted (snd (invoke a ev v w)) = posted w"
  by (auto simp add: invoke_def new_Promise_def executor_def Let_def
      split: option.splits sum.splits)

text \<open>
  Claim C2, as amended. In a fresh window with a transport, after the file has run, the
  first call \<^verbatim>\<open>invoke("Move", true)\<close> hands the transport exactly one message: the
  envelope with identifier 1 pretty-printed with two spaces, which without its spaces and
  line breaks is \<^verbatim>\<open>{"payload":{"id":1,"event":{"type":"Move","value":true}}}\<close>. Every
  call, in any window with the bridge installed, posts exactly one message, the text of
  its envelope, when the transport is present and the envelope can be serialized, as it
  always can for a boolean value; it posts none when the transport is absent or the
  serialization fails.
\<close>

theorem invoke_posts_message:
  \<open>posted (snd (call_invoke ''Move'' (JBool True) (load (fresh_window (Some postMessage) r))))
     = [move_true_text]
   \<and> filter (\<lambda>c. c \<noteq> CHR '' '' \<and> c \<noteq> CHR 0x0A) move_true_text =
     ''{"payload":{"id":1,"event":{"type":"Move","value":true}}}''
   \<and> (invoke_global w = Some a \<and> ipc w = Some post
        \<and> JSON_stringify (envelope (nextId w a) ev v) 2 = Inr m
        \<longrightarrow> posted (snd (call_invoke ev v w)) = posted w @ [m])
   \<and> (invoke_global w = Some a \<and> ipc w = Some post
        \<longrightarrow> (\<exists>m. JSON_stringify (envelope (nextId w a) ev (JBool b)) 2 = Inr m
                 \<and> posted (snd (call_invoke ev (JBool b) w)) = posted w @ [m]))
   \<and> (invoke_global w = Some a
        \<and> (ipc w = None \<or> JSON_stringify (envelope (nextId w a) ev v) 2 = Inl e)
        \<longrightarrow> posted (snd (call_invoke ev v w)) = posted w)\<close>
proof -
  let ?w = "load (fresh_window (Some postMessage) r)"
  have s: "JSON_stringify (envelope (nextId ?w 0) ''Move'' (JBool True)) 2 = Inr move_true_text"
    unfolding load_fresh(3) by (rule stringify_move_true)
  have "posted (snd (invoke 0 ''Move'' (JBool True) ?w)) = posted ?w @ [move_true_text]"
    using s load_fresh(6) by (rule invoke_posted)
  then have first: "posted (snd (call_invoke ''Move'' (JBool True) ?w)) = [move_true_text]"
    by (simp add: call_invoke_snd [OF load_fresh(1)] load_fresh(5))
  have one: "posted (snd (call_invoke ev v w)) = posted w @ [m]"
    if "invoke_global w = Some a" "ipc w = Some post"
      "JSON_stringify (envelope (nextId w a) ev v) 2 = Inr m"
    using that by (simp add: call_invoke_snd invoke_posted)
  have bool: "\<exists>m. JSON_stringify (envelope (nextId w a) ev (JBool b)) 2 = Inr m
                 \<and> posted (snd (call_invoke ev (JBool b) w)) = posted w @ [m]"
    if g: "invoke_global w = Some a" and t: "ipc w = Some post"
  proof -
    obtain m where m: "JSON_stringify (envelope (nextId w a) ev (JBool b)) 2 = Inr m"
      using stringify_bool by blast
    have "posted (snd (invoke a ev (JBool b) w)) = posted w @ [m]"
      using m t by (rule invoke_posted)
    with m g show ?thesis by (simp add: call_invoke_snd)
  qed
  have none: "posted (snd (call_invoke ev v w)) = posted w"
    if "invoke_global w = Some a"
      "ipc w = None \<or> JSON_stringify (envelope (nextId w a) ev v) 2 = Inl e"
    using that by (simp add: call_invoke_snd invoke_not_posted)
  from first move_true_compact one bool none show ?thesis by blast
qed

theorem invoke_posts_message_witness:
  "posted (snd (call_invoke ''Move'' (JBool False)
      (snd (call_invoke ''Move'' (JBool True) (load (fresh_window (Some (\<lambda>m. None)) False))))))
   = [move_true_text, move_false_text]"
proof -
  let ?w0 = "load (fresh_window (Some (\<lambda>m. None)) False)"
  let ?w1 = "snd (call_invoke ''Move'' (JBool True) ?w0)"
  have w1: "?w1 = snd (invoke 0 ''Move'' (JBool True) ?w0)"
    using load_fresh(1) by (rule call_invoke_snd)
  have g: "invoke_global ?w1 = Some 0" and t: "ipc ?w1 = Some (\<lambda>m. None)"
    and n: "nextId ?w1 0 = 2"
    by (simp_all add: w1 invoke_globals invoke_nextId load_fresh number_succ_def)
  have s: "JSON_stringify (envelope (nextId ?w1 0) ''Move'' (JBool False)) 2 = Inr move_false_text"
    unfolding n by (rule stringify_move_false)
  have p: "posted ?w1 = [move_true_text]"
    using invoke_posts_message [of "\<lambda>m. None" False] by blast
  have "posted (snd (call_invoke ''Move'' (JBool False) ?w1)) = posted ?w1 @ [move_false_text]"
    using invoke_posts_message [of _ _ ?w1 0 "\<lambda>m. None" "''Move''" "JBool False" move_false_text]
      g t s by blast
  with p show ?thesis by simp
qed

text \<open>
  Claim C2 as stated, one message for every call, fails: the first call in a fresh window
  without a transport posts nothing, and neither does a call whose value cannot be
  serialized.
\<close>

theorem no_message_counterexample:
  "posted (snd (call_invoke ''Move'' (JBool True) (load (fresh_window None False)))) = []
   \<and> posted (snd (call_invoke ''Move'' (JBigInt 1)
        (load (fresh_window (Some (\<lambda>m. None)) False)))) = []"
  by (simp add: call_invoke_snd [OF load_fresh(1)] invoke_not_posted load_fresh
      JSON_stringify_def envelope_def Let_def)

subsection \<open>The promise returned by the bridge function\<close>

lemma invoke_promise_cases:
  "fst (invoke a ev v w) =
     (case JSON_stringify (envelope (nextId w a) ev v) 2 of
        Inl e \<Rightarrow> Rejected e
      | Inr m \<Rightarrow>
          (case ipc w of
             None \<Rightarrow> Rejected TypeError
           | Some post \<Rightarrow> (case post m of Some e \<Rightarrow> Rejected e | None \<Rightarrow> Pending)))"
  by (simp add: invoke_def new_Promise_def executor_def Let_def split: sum.splits option.splits)

lemma serialize_error:
  "SerializeJSONProperty gap ind x = Inl e \<Longrightarrow> e = TypeError"
  "SerializeJSONMembers gap ind kvs = Inl e \<Longrightarrow> e = TypeError"
  by (induction gap ind x and gap ind kvs rule: SerializeJSONProperty_SerializeJSONMembers.induct)
    (auto split: sum.splits option.splits)

lemma stringify_error: "JSON_stringify ms n = Inl e \<Longrightarrow> e = TypeError"
  by (auto simp add: JSON_stringify_def Let_def serialize_error split: sum.splits)

text \<open>
  Claim C3, as amended. The executor of the bridge function calls neither
  \<^verbatim>\<open>resolve\<close> nor \<^verbatim>\<open>reject\<close>, and the promise is never fulfilled. The promise stays
  pending exactly when the body runs to its end: the envelope is serialized and the
  transport's \<^verbatim>\<open>postMessage\<close> returns. When the body throws (the serialization
  fails, the transport is absent, or \<^verbatim>\<open>postMessage\<close> throws), the promise
  constructor rejects the promise with the error thrown.
\<close>

theorem invoke_promise_settlement:
  "fst (executor a ev v w) = []
   \<and> (\<forall>x. fst (invoke a ev v w) \<noteq> Fulfilled x)
   \<and> (fst (invoke a ev v w) = Pending \<longleftrightarrow>
        (\<exists>m post. JSON_stringify (envelope (nextId w a) ev v) 2 = Inr m
                  \<and> ipc w = Some post \<and> post m = None))
   \<and> (\<forall>e. fst (invoke a ev v w) = Rejected e \<longleftrightarrow>
        JSON_stringify (envelope (nextId w a) ev v) 2 = Inl e
        \<or> (\<exists>m. JSON_stringify (envelope (nextId w a) ev v) 2 = Inr m
                \<and> (case ipc w of None \<Rightarrow> e = TypeError | Some post \<Rightarrow> post m = Some e)))"
proof (intro conjI allI)
  show "fst (executor a ev v w) = []" by (rule executor_settles)
  show "fst (invoke a ev v w) \<noteq> Fulfilled x" for x
    by (simp add: invoke_promise_cases split: sum.splits option.splits)
  show "fst (invoke a ev v w) = Pending \<longleftrightarrow>
        (\<exists>m post. JSON_stringify (envelope (nextId w a) ev v) 2 = Inr m
                  \<and> ipc w = Some post \<and> post m = None)"
    by (auto simp add: invoke_promise_cases split: sum.splits option.splits)
  show "fst (invoke a ev v w) = Rejected e \<longleftrightarrow>
        JSON_stringify (envelope (nextId w a) ev v) 2 = Inl e
        \<or> (\<exists>m. JSON_stringify (envelope (nextId w a) ev v) 2 = Inr m
                \<and> (case ipc w of None \<Rightarrow> e = TypeError | Some post \<Rightarrow> post m = Some e))" for e
    by (auto simp add: invoke_promise_cases split: sum.splits option.splits)
qed

theorem invoke_promise_settlement_witness:
  "fst (invoke 0 ''Move'' (JBool True) (load (fresh_window (Some (\<lambda>m. None)) False))) = Pending
   \<and> fst (executor 0 ''Move'' (JBool True) (load (fresh_window (Some (\<lambda>m. None)) False))) = []"
  using invoke_promise_settlement
    [of 0 "''Move''" "JBool True" "load (fresh_window (Some (\<lambda>m. None)) False)"]
  by (simp add: load_fresh JSON_stringify_def envelope_def Let_def)

text \<open>
  Claim C3 as stated, for every call, fails: with the transport absent the promise that
  \<^verbatim>\<open>invoke("Move", true)\<close> returns is rejected, so awaiting it does not hang.
\<close>

theorem invoke_rejected_counterexample:
  "fst (invoke 0 ''Move'' (JBool True) (load (fresh_window None False))) = Rejected TypeError"
  by (simp add: invoke_promise_cases load_fresh JSON_stringify_def envelope_def Let_def)

subsection \<open>An absent or failing transport\<close>

text \<open>
  Claim C7, as amended. With the transport absent, and no check of it beforehand, a call
  of \<^verbatim>\<open>invoke\<close> returns normally: the TypeError raised in the executor is caught by
  the promise constructor, and the caller receives a promise rejected with that error,
  unwrapped. The identifier is taken and no message is posted.
\<close>

theorem invoke_transport_absent:
  assumes "invoke_global w = Some a" and "ipc w = None"
  shows "call_invoke ev v w =
     (Inr (Rejected TypeError),
      w\<lparr>nextId := (nextId w)(a := number_succ (nextId w a)),
        requests := requests w @ [(nextId w a, ev, v)]\<rparr>)"
  using assms
  by (auto simp add: call_invoke_def invoke_def new_Promise_def executor_def Let_def
      split: sum.splits dest: stringify_error)

theorem invoke_transport_absent_witness:
  "fst (call_invoke ''Move'' (JBool False) (load (fresh_window None False)))
     = Inr (Rejected TypeError)
   \<and> posted (snd (call_invoke ''Move'' (JBool False) (load (fresh_window None False)))) = []
   \<and> nextId (snd (call_invoke ''Move'' (JBool False) (load (fresh_window None False)))) 0 = 2"
  using invoke_transport_absent
    [of "load (fresh_window None False)" 0 "''Move''" "JBool False"]
  by (simp add: load_fresh number_succ_def)

text \<open>
  Claim C7 as stated fails: with the transport absent the call does not throw. It
  returns a rejected promise, and its caller, here the press listener of the drag region,
  runs on and stops the propagation of the event.
\<close>

theorem invoke_returns_normally_counterexample:
  "fst (call_invoke ''Move'' (JBool True) (load (fresh_window None True)))
     = Inr (Rejected TypeError)
   \<and> fst (call_invoke ''Move'' (JBool True) (load (fresh_window None True))) \<noteq> Inl TypeError
   \<and> fst (drag_mousedown 0 (mouse 0 1 3 4 None True) (dragging (load (fresh_window None True))))
     = None
   \<and> propagation_stopped (fst (snd (drag_mousedown 0 (mouse 0 1 3 4 None True)
        (dragging (load (fresh_window None True))))))"
proof -
  have a: "fst (call_invoke ''Move'' (JBool True) (load (fresh_window None True)))
     = Inr (Rejected TypeError)"
    by (simp add: call_invoke_fst [OF load_fresh(1)] invoke_promise_cases load_fresh
        JSON_stringify_def envelope_def Let_def)
  have g: "invoke_global (dragging (load (fresh_window None True))) = Some 0"
    by (simp add: dragging_def load_fresh Let_def)
  have b: "fst (drag_mousedown 0 (mouse 0 1 3 4 None True) (dragging (load (fresh_window None True))))
     = None
   \<and> propagation_stopped (fst (snd (drag_mousedown 0 (mouse 0 1 3 4 None True)
        (dragging (load (fresh_window None True))))))"
    by (simp add: drag_mousedown_def call_invoke_def g mouse_def Let_def stopPropagation_def
        preventDefault_def split: prod.splits)
  from a b show ?thesis by simp
qed

lemma invoke_all_counter:
  fixes K :: nat
  assumes "K = 2 ^ 53"
  shows "invoke_global w = Some a \<Longrightarrow> nextId w a = c \<Longrightarrow> c \<le> K \<Longrightarrow>
     nextId (invoke_all cs w) a = min (c + length cs) K
     \<and> invoke_global (invoke_all cs w) = Some a \<and> ipc (invoke_all cs w) = ipc w"
proof (induction cs arbitrary: w c)
  case Nil
  then show ?case by simp
next
  case (Cons x cs)
  obtain ev v where x: "x = (ev, v)" by (cases x)
  let ?w = "snd (call_invoke ev v w)"
  have w': "?w = snd (invoke a ev v w)" using Cons.prems(1) by (rule call_invoke_snd)
  have g: "invoke_global ?w = Some a" using Cons.prems(1) by (simp add: w' invoke_globals)
  have n: "nextId ?w a = min (c + 1) K"
    using Cons.prems(2,3) by (simp add: w' invoke_nextId number_succ_min assms)
  have t: "ipc ?w = ipc w" by (simp add: w' invoke_globals)
  have "nextId (invoke_all cs ?w) a = min (min (c + 1) K + length cs) K
     \<and> invoke_global (invoke_all cs ?w) = Some a \<and> ipc (invoke_all cs ?w) = ipc ?w"
    by (rule Cons.IH [OF g n]) simp
  then show ?case
    using Cons.prems(3) by (simp add: x t min_def)
qed

lemma invoke_absent_rejected:
  "ipc w = None \<Longrightarrow> fst (invoke a ev v w) = Rejected TypeError"
  by (auto simp add: invoke_promise_cases split: sum.splits dest: stringify_error)

lemma saturated_twice:
  "nextId w a = 2 ^ 53 \<Longrightarrow>
   map fst (requests (snd (invoke a ev' v' (snd (invoke a ev v w))))) =
     map fst (requests w) @ [2 ^ 53, 2 ^ 53]"
  by (simp add: invoke_requests invoke_nextId number_succ_def)

text \<open>
  Claim C10, as amended. When the transport call of \<^verbatim>\<open>invoke\<close> raises an error \<open>e\<close>
  (the transport is absent, or its \<^verbatim>\<open>postMessage\<close> throws) and the counter is below
  \<open>2 ^ 53\<close>, the promise is rejected with \<open>e\<close> and the counter has been advanced all the
  same: the failed call keeps its identifier, and the next call takes the identifier
  plus one.
\<close>

theorem failed_invoke_consumes_id:
  assumes "JSON_stringify (envelope (nextId w a) ev v) 2 = Inr m"
    and "case ipc w of None \<Rightarrow> e = TypeError | Some postMessage \<Rightarrow> postMessage m = Some e"
    and "nextId w a < 2 ^ 53"
  shows "fst (invoke a ev v w) = Rejected e
       \<and> requests (snd (invoke a ev v w)) = requests w @ [(nextId w a, ev, v)]
       \<and> nextId (snd (invoke a ev v w)) a = nextId w a + 1
       \<and> requests (snd (invoke a ev' v' (snd (invoke a ev v w)))) =
           requests w @ [(nextId w a, ev, v), (nextId w a + 1, ev', v')]"
proof -
  have "fst (invoke a ev v w) = Rejected e"
    using assms(1,2) by (cases "ipc w") (simp_all add: invoke_promise_cases)
  then show ?thesis
    using assms(3) by (simp add: invoke_requests invoke_nextId number_succ_def)
qed

theorem failed_invoke_consumes_id_witness:
  "fst (invoke 0 ''Move'' (JBool True)
        (load (fresh_window (Some (\<lambda>m. Some (HostError ''closed''))) False)))
     = Rejected (HostError ''closed'')
   \<and> nextId (snd (invoke 0 ''Move'' (JBool True)
        (load (fresh_window (Some (\<lambda>m. Some (HostError ''closed''))) False)))) 0 = 2
   \<and> requests (snd (invoke 0 ''Move'' (JBool False)
        (snd (invoke 0 ''Move'' (JBool True)
          (load (fresh_window (Some (\<lambda>m. Some (HostError ''closed''))) False)))))) =
      [(1, ''Move'', JBool True), (2, ''Move'', JBool False)]"
proof -
  let ?w = "load (fresh_window (Some (\<lambda>m. Some (HostError ''closed''))) False)"
  have s: "JSON_stringify (envelope (nextId ?w 0) ''Move'' (JBool True)) 2 = Inr move_true_text"
    unfolding load_fresh(3) by (rule stringify_move_true)
  have t: "case ipc ?w of None \<Rightarrow> HostError ''closed'' = TypeError
           | Some postMessage \<Rightarrow> postMessage move_true_text = Some (HostError ''closed'')"
    by (simp add: load_fresh)
  have b: "nextId ?w 0 < 2 ^ 53"
    by (simp add: load_fresh)
  show ?thesis
    using failed_invoke_consumes_id [OF s t b, of "''Move''" "JBool False"]
    by (simp add: load_fresh)
qed

text \<open>
  Claim C10 as stated, with no bound, fails at the saturated counter: after \<open>2 ^ 53 - 1\<close>
  calls the counter is \<open>2 ^ 53\<close>; a call failing there takes the identifier \<open>2 ^ 53\<close> and
  leaves the counter as it is, and the next call takes \<open>2 ^ 53\<close> again.
\<close>

theorem failed_invoke_saturated_counterexample:
  "fst (invoke 0 ''Move'' (JBool True)
      (invoke_all (replicate (2 ^ 53 - 1) (''Move'', JBool True)) (load (fresh_window None False))))
     = Rejected TypeError
   \<and> map fst (requests (snd (invoke 0 ''Move'' (JBool False) (snd (invoke 0 ''Move'' (JBool True)
      (invoke_all (replicate (2 ^ 53 - 1) (''Move'', JBool True))
         (load (fresh_window None False))))))))
     = map fst (requests
      (invoke_all (replicate (2 ^ 53 - 1) (''Move'', JBool True)) (load (fresh_window None False))))
       @ [2 ^ 53, 2 ^ 53]"
proof -
  let ?W = "invoke_all (replicate (2 ^ 53 - 1) (''Move'', JBool True)) (load (fresh_window None False))"
  have "nextId ?W 0 = min (1 + length (replicate (2 ^ 53 - 1 :: nat) (''Move'', JBool True))) (2 ^ 53)
     \<and> invoke_global ?W = Some 0 \<and> ipc ?W = ipc (load (fresh_window None False))"
    by (rule invoke_all_counter [OF refl load_fresh(1) load_fresh(3)]) simp
  then have n: "nextId ?W 0 = 2 ^ 53" and t: "ipc ?W = None"
    by (simp_all add: load_fresh)
  have r: "fst (invoke 0 ''Move'' (JBool True) ?W) = Rejected TypeError"
    using t by (rule invoke_absent_rejected)
  have q: "map fst (requests (snd (invoke 0 ''Move'' (JBool False)
          (snd (invoke 0 ''Move'' (JBool True) ?W))))) = map fst (requests ?W) @ [2 ^ 53, 2 ^ 53]"
    using n by (rule saturated_twice)
  show ?thesis by (rule conjI [OF r q])
qed

subsection \<open>Installing the bridge twice\<close>

lemma call_invoke_api: "api_invoke (snd (call_invoke ev v w)) = api_invoke w"
  by (simp add: call_invoke_def invoke_globals split: option.splits prod.splits)
    (metis invoke_globals(2) snd_conv)

lemma invoke_all_api: "api_invoke (invoke_all cs w) = api_invoke w"
  by (induction cs arbitrary: w) (auto simp: call_invoke_api)

lemma install_installed: "api_invoke w \<noteq> None \<Longrightarrow> install w = w"
  by (simp add: install_def)

lemma api_install: "api_invoke (install w) \<noteq> None"
  by (simp add: install_def Let_def)

text \<open>
  Claim C6. Installing the bridge again is a no-op: a second installation right after the
  first, or after any number of calls, leaves the window as it is, with the global
  function and its counter, so a later call behaves as it would without the second
  installation. After two calls, a second installation and a third call, the identifiers
  are 1, 2, 3.
\<close>

theorem install_idempotent:
  "install (install w) = install w
   \<and> install (invoke_all cs (install w)) = invoke_all cs (install w)
   \<and> call_invoke ev v (install (invoke_all cs (install w))) =
       call_invoke ev v (invoke_all cs (install w))
   \<and> map fst (requests (invoke_all [(''Move'', JBool False)]
        (install (invoke_all [(''Move'', JBool True), (''Move'', JBool False)]
           (install (fallback (fallback (fresh_window t r)))))))) = [1, 2, 3]"
proof -
  have a: "install (install w) = install w"
    by (rule install_installed [OF api_install])
  have b: "install (invoke_all cs (install w)) = invoke_all cs (install w)"
    by (rule install_installed) (simp add: invoke_all_api api_install)
  have c: "install (invoke_all [(''Move'', JBool True), (''Move'', JBool False)]
           (install (fallback (fallback (fresh_window t r))))) =
       invoke_all [(''Move'', JBool True), (''Move'', JBool False)]
           (install (fallback (fallback (fresh_window t r))))"
    by (rule install_installed) (simp only: invoke_all_api api_install not_False_eq_True)
  have d: "map fst (requests (invoke_all [(''Move'', JBool False)]
        (install (invoke_all [(''Move'', JBool True), (''Move'', JBool False)]
           (install (fallback (fallback (fresh_window t r)))))))) = [1, 2, 3]"
    unfolding c
    by (simp add: call_invoke_snd invoke_requests invoke_nextId invoke_globals
        load_fresh [unfolded load_def] number_succ_def)
  show ?thesis using a b d by simp
qed

section \<open>Facts about the drag initiator\<close>

lemma drag_mousedown_primary:
  assumes "button e = 0" and "invoke_global w = Some a"
  shows "drag_mousedown s e w =
     (None, stopPropagation (preventDefault e),
      snd (invoke a ''Move'' (JBool True)
        (w\<lparr>sessions := (sessions w)
             (s := \<lparr>isDragging = True, startX = clientX e, startY = clientY e\<rparr>)\<rparr>)))"
  using assms
  by (simp add: drag_mousedown_def call_invoke_def Let_def split: prod.splits)

lemma drag_mouseup_active:
  assumes "isDragging (sessions w s)" and "invoke_global w = Some a"
  shows "drag_mouseup s e w =
     (None, e,
      snd (invoke a ''Move'' (JBool False)
        (w\<lparr>sessions := (sessions w)(s := (sessions w s)\<lparr>isDragging := False\<rparr>)\<rparr>)))"
  using assms
  by (simp add: drag_mouseup_def call_invoke_def Let_def split: prod.splits)

lemma drag_mouseup_idle:
  "\<not> isDragging (sessions w s) \<Longrightarrow> drag_mouseup s e w = (None, e, w)"
  by (simp add: drag_mouseup_def)

lemma fallback_qualifying:
  assumes "target_attr e \<noteq> None" and "detail e = 1 \<or> detail e = 2"
    and "invoke_global w = Some a"
  shows "fallback_mousedown e w =
     (None, stopImmediatePropagation (preventDefault e),
      snd (invoke a ''Move'' (JBool True) w))"
  using assms
  by (auto simp add: fallback_mousedown_def call_invoke_def Let_def split: prod.splits)

lemma press_dispatch:
  assumes "region_mousedown w = [DragMouseDown s]" and "invoke_global w = Some a"
    and "button d = 0" and "in_region d" and "\<not> immediate_stopped d"
  shows "dispatch_mousedown d w =
     (stopPropagation (preventDefault d),
      snd (invoke a ''Move'' (JBool True)
        (w\<lparr>sessions := (sessions w)
             (s := \<lparr>isDragging = True, startX = clientX d, startY = clientY d\<rparr>)\<rparr>)))"
  using assms
  by (simp add: dispatch_mousedown_def drag_mousedown_primary stopPropagation_def)

lemma release_dispatch:
  assumes "window_mouseup w = [DragMouseUp s]" and "invoke_global w = Some a"
    and "isDragging (sessions w s)" and "\<not> immediate_stopped u"
  shows "dispatch_mouseup u w =
     (u, snd (invoke a ''Move'' (JBool False)
        (w\<lparr>sessions := (sessions w)(s := (sessions w s)\<lparr>isDragging := False\<rparr>)\<rparr>)))"
  using assms
  by (simp add: dispatch_mouseup_def drag_mouseup_active)

lemma release_idle:
  assumes "window_mouseup w = [DragMouseUp s]" and "\<not> isDragging (sessions w s)"
  shows "dispatch_mouseup u w = (u, w)"
  using assms
  by (simp add: dispatch_mouseup_def drag_mouseup_idle)


lemma pair_step:
  assumes rm: "region_mousedown w = [DragMouseDown s]" and mu: "window_mouseup w = [DragMouseUp s]"
    and ig: "invoke_global w = Some a"
    and d: "button d = 0" "in_region d" "\<not> immediate_stopped d" and u: "\<not> immediate_stopped u"
  defines "w1 \<equiv> snd (dispatch_mousedown d w)"
  defines "w2 \<equiv> snd (dispatch_mouseup u w1)"
  shows "isDragging (sessions w1 s)" and "\<not> isDragging (sessions w2 s)"
    and "region_mousedown w2 = [DragMouseDown s]" and "window_mouseup w2 = [DragMouseUp s]"
    and "invoke_global w2 = Some a"
    and "map snd (requests w2) =
         map snd (requests w) @ [(''Move'', JBool True), (''Move'', JBool False)]"
proof -
  have w1: "w1 = snd (invoke a ''Move'' (JBool True)
        (w\<lparr>sessions := (sessions w)
             (s := \<lparr>isDragging = True, startX = clientX d, startY = clientY d\<rparr>)\<rparr>))"
    unfolding w1_def press_dispatch [OF rm ig d] by simp
  show f1: "isDragging (sessions w1 s)"
    by (simp add: w1 invoke_dom)
  have mu1: "window_mouseup w1 = [DragMouseUp s]" and ig1: "invoke_global w1 = Some a"
    and rm1: "region_mousedown w1 = [DragMouseDown s]"
    and r1: "map snd (requests w1) = map snd (requests w) @ [(''Move'', JBool True)]"
    by (simp_all add: w1 invoke_dom invoke_globals invoke_requests mu ig rm)
  have w2: "w2 = snd (invoke a ''Move'' (JBool False)
        (w1\<lparr>sessions := (sessions w1)(s := (sessions w1 s)\<lparr>isDragging := False\<rparr>)\<rparr>))"
    unfolding w2_def release_dispatch [OF mu1 ig1 f1 u] by simp
  show "\<not> isDragging (sessions w2 s)"
    by (simp add: w2 invoke_dom)
  show "region_mousedown w2 = [DragMouseDown s]" "window_mouseup w2 = [DragMouseUp s]"
    "invoke_global w2 = Some a"
    by (simp_all add: w2 invoke_dom invoke_globals mu1 ig1 rm1)
  show "map snd (requests w2) =
         map snd (requests w) @ [(''Move'', JBool True), (''Move'', JBool False)]"
    by (simp add: w2 invoke_requests r1)
qed

lemma emitted_append: "requests w' = requests w @ xs \<Longrightarrow> emitted w w' = map snd xs"
  by (simp add: emitted_def)

lemma pair_step_emitted:
  assumes rm: "region_mousedown w = [DragMouseDown s]" and mu: "window_mouseup w = [DragMouseUp s]"
    and ig: "invoke_global w = Some a"
    and d: "button d = 0" "in_region d" "\<not> immediate_stopped d" and u: "\<not> immediate_stopped u"
  defines "w1 \<equiv> snd (dispatch_mousedown d w)"
  defines "w2 \<equiv> snd (dispatch_mouseup u w1)"
  shows "emitted w w1 = [(''Move'', JBool True)]"
    and "emitted w1 w2 = [(''Move'', JBool False)]"
proof -
  have w1: "w1 = snd (invoke a ''Move'' (JBool True)
        (w\<lparr>sessions := (sessions w)
             (s := \<lparr>isDragging = True, startX = clientX d, startY = clientY d\<rparr>)\<rparr>))"
    unfolding w1_def press_dispatch [OF rm ig d] by simp
  have f1: "isDragging (sessions w1 s)"
    by (simp add: w1 invoke_dom)
  have mu1: "window_mouseup w1 = [DragMouseUp s]" and ig1: "invoke_global w1 = Some a"
    by (simp_all add: w1 invoke_dom invoke_globals mu ig)
  have w2: "w2 = snd (invoke a ''Move'' (JBool False)
        (w1\<lparr>sessions := (sessions w1)(s := (sessions w1 s)\<lparr>isDragging := False\<rparr>)\<rparr>))"
    unfolding w2_def release_dispatch [OF mu1 ig1 f1 u] by simp
  have "requests w1 = requests w @ [(nextId w a, ''Move'', JBool True)]"
    by (simp add: w1 invoke_requests)
  then show "emitted w w1 = [(''Move'', JBool True)]"
    by (simp add: emitted_append)
  have "requests w2 = requests w1 @ [(nextId w1 a, ''Move'', JBool False)]"
    by (simp add: w2 invoke_requests)
  then show "emitted w1 w2 = [(''Move'', JBool False)]"
    by (simp add: emitted_append)
qed

text \<open>
  Claim C4. After \<^verbatim>\<open>dragging\<close> has run once with the region element present and the
  bridge installed, with no session active: along any run of pairs of a primary-button
  press on the drag region and a release, each press leaves the flag \<open>isDragging\<close> true
  and makes exactly the one call \<^verbatim>\<open>invoke("Move", true)\<close>, and each release leaves the
  flag false and makes exactly the one call \<^verbatim>\<open>invoke("Move", false)\<close>; the calls of the
  whole run are these, in this order. A release with no session active changes nothing and
  makes no call.
\<close>

theorem press_release_pairs:
  assumes "region_mousedown w = [DragMouseDown s]" and "window_mouseup w = [DragMouseUp s]"
    and "invoke_global w = Some a" and "\<not> isDragging (sessions w s)"
    and "\<forall>(d, u) \<in> set ps. button d = 0 \<and> in_region d \<and> untouched d \<and> untouched u"
  shows "fst (gestures s ps w) =
           concat (map (\<lambda>p. [(True, [(''Move'', JBool True)]),
                              (False, [(''Move'', JBool False)])]) ps)
       \<and> map snd (requests (snd (gestures s ps w))) =
           map snd (requests w)
           @ concat (map (\<lambda>p. [(''Move'', JBool True), (''Move'', JBool False)]) ps)
       \<and> \<not> isDragging (sessions (snd (gestures s ps w)) s)
       \<and> dispatch_mouseup u' w = (u', w)"
proof -
  have run: "fst (gestures s ps w) =
           concat (map (\<lambda>p. [(True, [(''Move'', JBool True)]),
                              (False, [(''Move'', JBool False)])]) ps)
       \<and> map snd (requests (snd (gestures s ps w))) =
           map snd (requests w)
           @ concat (map (\<lambda>p. [(''Move'', JBool True), (''Move'', JBool False)]) ps)
       \<and> \<not> isDragging (sessions (snd (gestures s ps w)) s)"
    using assms
  proof (induction ps arbitrary: w)
    case Nil
    then show ?case by simp
  next
    case (Cons p ps)
    obtain d u where p: "p = (d, u)" by (cases p)
    have d: "button d = 0" "in_region d" "\<not> immediate_stopped d" and u: "\<not> immediate_stopped u"
      using Cons.prems(5) by (simp_all add: p untouched_def)
    note st = pair_step [OF Cons.prems(1,2,3) d u]
    note em = pair_step_emitted [OF Cons.prems(1,2,3) d u]
    have rest: "\<forall>(d, u) \<in> set ps. button d = 0 \<and> in_region d \<and> untouched d \<and> untouched u"
      using Cons.prems(5) by simp
    note ih = Cons.IH [OF st(3,4,5,2) rest]
    show ?case
      using ih st(1,2,6) em by (simp add: p Let_def case_prod_beta)
  qed
  have "dispatch_mouseup u' w = (u', w)"
    using assms(2,4) by (rule release_idle)
  with run show ?thesis by simp
qed

lemma setup_fresh:
  "region_mousedown (dragging (load (fresh_window t True))) = [DragMouseDown 0]"
  "window_mouseup (dragging (load (fresh_window t True))) = [DragMouseUp 0]"
  "window_mousemove (dragging (load (fresh_window t True))) = [DragMouseMove 0]"
  "document_mousedown (dragging (load (fresh_window t True))) = [FallbackMouseDown, FallbackMouseDown]"
  "invoke_global (dragging (load (fresh_window t True))) = Some 0"
  "\<not> isDragging (sessions (dragging (load (fresh_window t True))) 0)"
  "requests (dragging (load (fresh_window t True))) = []"
  "nextId (dragging (load (fresh_window t True))) 0 = 1"
  "ipc (dragging (load (fresh_window t True))) = t"
  by (simp_all add: dragging_def load_fresh Let_def)

theorem press_release_pairs_witness:
  "fst (gestures 0 [(mouse 0 1 10 20 None True, mouse 0 1 40 50 None False),
                    (mouse 0 2 11 21 (Some []) True, mouse 0 2 11 21 None True)]
         (dragging (load (fresh_window None True)))) =
     [(True, [(''Move'', JBool True)]), (False, [(''Move'', JBool False)]),
      (True, [(''Move'', JBool True)]), (False, [(''Move'', JBool False)])]
   \<and> map snd (requests (snd (gestures 0
         [(mouse 0 1 10 20 None True, mouse 0 1 40 50 None False),
          (mouse 0 2 11 21 (Some []) True, mouse 0 2 11 21 None True)]
         (dragging (load (fresh_window None True)))))) =
       [(''Move'', JBool True), (''Move'', JBool False),
        (''Move'', JBool True), (''Move'', JBool False)]"
  using press_release_pairs
    [of "dragging (load (fresh_window None True))" 0 0
        "[(mouse 0 1 10 20 None True, mouse 0 1 40 50 None False),
          (mouse 0 2 11 21 (Some []) True, mouse 0 2 11 21 None True)]"]
  by (simp add: setup_fresh mouse_def untouched_def)

text \<open>
  Claim C8. A press with a button other than the primary one, handled by the press
  listener of the drag region, makes no call and changes nothing: the window, with the
  flag \<open>isDragging\<close> and the recorded start coordinates, and the event are as before.
\<close>

theorem nonprimary_press_ignored:
  assumes "button e \<noteq> 0"
  shows "drag_mousedown s e w = (None, e, w)"
  using assms by (simp add: drag_mousedown_def)

theorem nonprimary_press_ignored_witness:
  "button (mouse 2 1 3 4 None True) \<noteq> 0
   \<and> drag_mousedown 0 (mouse 2 1 3 4 None True) (dragging (load (fresh_window None True))) =
      (None, mouse 2 1 3 4 None True, dragging (load (fresh_window None True)))
   \<and> \<not> isDragging (sessions (snd (snd (drag_mousedown 0 (mouse 2 1 3 4 None True)
        (dragging (load (fresh_window None True)))))) 0)"
  using nonprimary_press_ignored
    [of "mouse 2 1 3 4 None True" 0 "dragging (load (fresh_window None True))"]
  by (simp add: mouse_def setup_fresh)

text \<open>
  Claim C9. The mousemove listener has no effect, whether a session is active or not: it
  makes no call, throws nothing, and leaves the window and the event as they are.
\<close>

theorem mousemove_no_effect:
  "drag_mousemove s e w = (None, e, w)
   \<and> run_listeners [DragMouseMove s] e w = (e, w)"
  by (simp add: drag_mousemove_def Let_def)

lemma drag_listeners_skip:
  assumes "\<forall>l \<in> set ls. \<exists>s. l = DragMouseDown s" and "button e \<noteq> 0"
  shows "run_listeners ls e w = (e, w)"
  using assms by (induction ls) (auto simp: drag_mousedown_def)

text \<open>
  Claim C5, as amended. A mousedown whose target bears the attribute
  \<^verbatim>\<open>data-taocket-drag-region\<close>, with click detail 1 or 2, and which reaches the document
  (it is not a primary-button press inside a drag region that has its press listener),
  makes exactly one call \<^verbatim>\<open>invoke("Move", true)\<close>: the first fallback listener prevents
  the default action, stops immediate propagation and calls the bridge, and the second
  fallback listener does not run. No session flag is set.
\<close>

theorem fallback_single_call:
  assumes "document_mousedown w = [FallbackMouseDown, FallbackMouseDown]"
    and "invoke_global w = Some a"
    and "\<forall>l \<in> set (region_mousedown w). \<exists>s. l = DragMouseDown s"
    and "target_attr e \<noteq> None" and "detail e = 1 \<or> detail e = 2" and "untouched e"
    and "in_region e \<and> region_mousedown w \<noteq> [] \<longrightarrow> button e \<noteq> 0"
  shows "dispatch_mousedown e w =
           (stopImmediatePropagation (preventDefault e), snd (invoke a ''Move'' (JBool True) w))
       \<and> requests (snd (dispatch_mousedown e w)) = requests w @ [(nextId w a, ''Move'', JBool True)]
       \<and> immediate_stopped (fst (dispatch_mousedown e w))
       \<and> defaultPrevented (fst (dispatch_mousedown e w))
       \<and> sessions (snd (dispatch_mousedown e w)) = sessions w"
proof -
  have region: "(if in_region e then run_listeners (region_mousedown w) e w else (e, w)) = (e, w)"
  proof (cases "in_region e \<and> region_mousedown w \<noteq> []")
    case True
    with assms(7) have "button e \<noteq> 0" by simp
    with assms(3) show ?thesis by (simp add: drag_listeners_skip)
  next
    case False
    then show ?thesis by auto
  qed
  have fb: "fallback_mousedown e w =
     (None, stopImmediatePropagation (preventDefault e), snd (invoke a ''Move'' (JBool True) w))"
    using assms(4,5,2) by (rule fallback_qualifying)
  have "dispatch_mousedown e w =
           (stopImmediatePropagation (preventDefault e), snd (invoke a ''Move'' (JBool True) w))"
    using assms(6)
    by (simp add: dispatch_mousedown_def region assms(1) fb untouched_def
        stopImmediatePropagation_def)
  then show ?thesis
    by (simp add: invoke_requests invoke_dom stopImmediatePropagation_def preventDefault_def)
qed

theorem fallback_single_call_witness:
  "requests (snd (dispatch_mousedown (mouse 2 1 3 4 (Some []) True)
      (dragging (load (fresh_window None True))))) = [(1, ''Move'', JBool True)]
   \<and> immediate_stopped (fst (dispatch_mousedown (mouse 2 1 3 4 (Some []) True)
      (dragging (load (fresh_window None True)))))"
  using fallback_single_call
    [of "dragging (load (fresh_window None True))" 0 "mouse 2 1 3 4 (Some []) True"]
  by (simp add: setup_fresh mouse_def untouched_def invoke_requests
      stopImmediatePropagation_def preventDefault_def)

text \<open>
  Claim C5 as stated, for every such mousedown, fails: a primary-button press inside the
  drag region, on a target that also bears the fallback's attribute, is handled by the
  region's press listener, which stops the propagation. The event never reaches the
  document: the one call is the region listener's (it sets the session flag), and
  immediate propagation is not stopped.
\<close>

theorem fallback_not_reached_counterexample:
  "\<not> immediate_stopped (fst (dispatch_mousedown (mouse 0 1 3 4 (Some []) True)
        (dragging (load (fresh_window None True)))))
   \<and> snd (dispatch_mousedown (mouse 0 1 3 4 (Some []) True)
        (dragging (load (fresh_window None True)))) =
      snd (snd (drag_mousedown 0 (mouse 0 1 3 4 (Some []) True)
        (dragging (load (fresh_window None True)))))
   \<and> isDragging (sessions (snd (dispatch_mousedown (mouse 0 1 3 4 (Some []) True)
        (dragging (load (fresh_window None True))))) 0)
   \<and> map snd (requests (snd (dispatch_mousedown (mouse 0 1 3 4 (Some []) True)
        (dragging (load (fresh_window None True)))))) = [(''Move'', JBool True)]"
proof -
  let ?e = "mouse 0 1 3 4 (Some []) True"
  let ?w = "dragging (load (fresh_window None True))"
  have b: "button ?e = 0" "in_region ?e" "\<not> immediate_stopped ?e"
    by (simp_all add: mouse_def)
  note pd = press_dispatch [OF setup_fresh(1) setup_fresh(5) b]
  have dm: "drag_mousedown 0 ?e ?w = (None, stopPropagation (preventDefault ?e),
      snd (invoke 0 ''Move'' (JBool True)
        (?w\<lparr>sessions := (sessions ?w)
             (0 := \<lparr>isDragging = True, startX = clientX ?e, startY = clientY ?e\<rparr>)\<rparr>)))"
    using b(1) setup_fresh(5) by (rule drag_mousedown_primary)
  show ?thesis
    unfolding pd dm
    by (simp add: invoke_dom invoke_requests setup_fresh stopPropagation_def preventDefault_def
        mouse_def)
qed

end
